theory Spec2Isabelle
  imports Complex_Main "HOL-Library.AList"
begin

section \<open>Numbers\<close>

text \<open>
  A JavaScript number is an IEEE 754 binary64 value: a finite double, one of the two
  infinities, or \<open>NaN\<close>. A finite double is a real \<open>m * 2 ^ e\<close> with an integer
  \<open>m\<close> below \<open>2 ^ 53\<close> in magnitude and \<open>e\<close> from -1074 on. The two zeros are the
  one value \<open>Finite 0\<close>: the code modelled here never divides by a number it has
  computed, and it prints its results, where both zeros print as \<open>0\<close>.
\<close>

datatype double = Finite real | PlusInfinity | MinusInfinity | NaN

text \<open>
  Rounding to nearest, ties to even. \<open>ulp_exponent x\<close> is the exponent of the unit in
  the last place of the doubles around \<open>x\<close> (that of the subnormal numbers below
  \<open>2 ^ -1022\<close>); \<open>nearest x\<close> is the multiple of that unit nearest to \<open>x\<close>, the even
  multiple when two are equally near.
\<close>

definition ulp_exponent :: "real \<Rightarrow> int" where
  "ulp_exponent x = max \<lfloor>log 2 \<bar>x\<bar>\<rfloor> (- 1022) - 52"

definition round_even :: "real \<Rightarrow> int" where
  "round_even y =
     (let n = \<lfloor>y\<rfloor>; d = y - of_int n in
      if d < 1 / 2 then n else if 1 / 2 < d then n + 1 else if even n then n else n + 1)"

definition nearest :: "real \<Rightarrow> real" where
  "nearest x =
     (if x = 0 then 0
      else of_int (round_even (x / 2 powi ulp_exponent x)) * 2 powi ulp_exponent x)"

text \<open>The result of an operation whose exact value is \<open>x\<close>: rounded, and infinite
  when the rounded value is out of range.\<close>

definition round_double :: "real \<Rightarrow> double" where
  "round_double x =
     (let r = nearest x in
      if 2 ^ 1024 \<le> r then PlusInfinity
      else if r \<le> - (2 ^ 1024) then MinusInfinity
      else Finite r)"

text \<open>The operators \<open>+\<close>, unary and binary \<open>-\<close>, \<open>*\<close> and \<open>/\<close> on numbers, and
  \<open>Math.max\<close> of two numbers.\<close>

fun fadd :: "double \<Rightarrow> double \<Rightarrow> double" where
  "fadd (Finite x) (Finite y) = round_double (x + y)"
| "fadd NaN b = NaN"
| "fadd a NaN = NaN"
| "fadd PlusInfinity MinusInfinity = NaN"
| "fadd MinusInfinity PlusInfinity = NaN"
| "fadd PlusInfinity b = PlusInfinity"
| "fadd a PlusInfinity = PlusInfinity"
| "fadd MinusInfinity b = MinusInfinity"
| "fadd a MinusInfinity = MinusInfinity"

fun fneg :: "double \<Rightarrow> double" where
  "fneg (Finite x) = Finite (- x)"
| "fneg PlusInfinity = MinusInfinity"
| "fneg MinusInfinity = PlusInfinity"
| "fneg NaN = NaN"

definition fsub :: "double \<Rightarrow> double \<Rightarrow> double" where
  "fsub a b = fadd a (fneg b)"

fun fmul :: "double \<Rightarrow> double \<Rightarrow> double" where
  "fmul (Finite x) (Finite y) = round_double (x * y)"
| "fmul NaN b = NaN"
| "fmul a NaN = NaN"
| "fmul PlusInfinity (Finite y) =
     (if y = 0 then NaN else if 0 < y then PlusInfinity else MinusInfinity)"
| "fmul MinusInfinity (Finite y) =
     (if y = 0 then NaN else if 0 < y then MinusInfinity else PlusInfinity)"
| "fmul (Finite x) PlusInfinity =
     (if x = 0 then NaN else if 0 < x then PlusInfinity else MinusInfinity)"
| "fmul (Finite x) MinusInfinity =
     (if x = 0 then NaN else if 0 < x then MinusInfinity else PlusInfinity)"
| "fmul PlusInfinity PlusInfinity = PlusInfinity"
| "fmul MinusInfinity MinusInfinity = PlusInfinity"
| "fmul PlusInfinity MinusInfinity = MinusInfinity"
| "fmul MinusInfinity PlusInfinity = MinusInfinity"

text \<open>
  Division. Every divisor of the modelled code is one of the literals 2, 12, 60 and
  120; a zero divisor is read as the positive zero.
\<close>

fun fdiv :: "double \<Rightarrow> double \<Rightarrow> double" where
  "fdiv (Finite x) (Finite y) =
     (if y = 0 then (if x = 0 then NaN else if 0 < x then PlusInfinity else MinusInfinity)
      else round_double (x / y))"
| "fdiv NaN b = NaN"
| "fdiv a NaN = NaN"
| "fdiv (Finite x) PlusInfinity = Finite 0"
| "fdiv (Finite x) MinusInfinity = Finite 0"
| "fdiv PlusInfinity (Finite y) = (if 0 \<le> y then PlusInfinity else MinusInfinity)"
| "fdiv MinusInfinity (Finite y) = (if 0 \<le> y then MinusInfinity else PlusInfinity)"
| "fdiv PlusInfinity b = NaN"
| "fdiv MinusInfinity b = NaN"

fun fmax :: "double \<Rightarrow> double \<Rightarrow> double" where
  "fmax (Finite x) (Finite y) = Finite (max x y)"
| "fmax NaN b = NaN"
| "fmax a NaN = NaN"
| "fmax PlusInfinity b = PlusInfinity"
| "fmax a PlusInfinity = PlusInfinity"
| "fmax MinusInfinity b = b"
| "fmax a MinusInfinity = a"

text \<open>The number that a natural number below \<open>2 ^ 53\<close> is.\<close>

definition num :: "nat \<Rightarrow> double" where
  "num n = Finite (real n)"

section \<open>ClockHand (src/src/Clock.tsx, lines 564 to 643)\<close>

text \<open>
  The options of one part of a hand, as \<open>HandSubPartOptions\<close> declares them after
  \<open>Strictify\<close> and \<open>BooleanifyAncestor\<close>. The field \<open>show\<close> of the source is
  \<open>shown\<close> here, \<open>back\<close> is \<open>backPart\<close>. The alignment of the front part is a
  string at run time.
\<close>

record handSubPart =
  shown :: bool
  background :: string
  radius :: double
  width :: double
  height :: double

record handFront = handSubPart +
  alignment :: string

record clockHand =
  hand_shown :: bool
  front :: handFront
  frontBase :: handSubPart
  backPart :: handSubPart

text \<open>Lines 590 to 596: the memoised \<open>frontAlignmentTranslation\<close>.\<close>

definition frontAlignmentTranslation :: "string \<Rightarrow> double \<Rightarrow> double \<Rightarrow> double \<Rightarrow> double" where
  "frontAlignmentTranslation alignment' frontHeight frontBaseHeight pivotSize =
     (if alignment' = ''PIVOT'' then fsub frontHeight frontBaseHeight
      else if alignment' = ''CENTER''
      then fdiv (fsub (fadd frontHeight (fdiv pivotSize (Finite 2))) frontBaseHeight) (Finite 2)
      else Finite 0)"

text \<open>Lines 598 to 601: the memoised \<open>resolvedHandWidth\<close>.\<close>

definition resolvedHandWidth :: "double \<Rightarrow> double \<Rightarrow> double" where
  "resolvedHandWidth frontBaseWidth backWidth = fmax frontBaseWidth backWidth"

text \<open>
  Lines 605 to 615: the custom properties set on the hand's element, as numbers (the
  source prints them with their units). \<open>hand_origin\<close> is the \<open>backHeight\<close> that
  \<open>--hand-origin\<close> subtracts from 100 percent. The caller (line 694) passes no
  \<open>style\<close>, so nothing overrides them.
\<close>

record handStyle =
  hand_height :: double
  hand_width :: double
  hand_back_height :: double
  hand_rotate :: double
  transition_ms :: double
  hand_origin :: double

definition ClockHand_style :: "clockHand \<Rightarrow> double \<Rightarrow> double \<Rightarrow> double \<Rightarrow> handStyle" where
  "ClockHand_style clockHand' degrees pivotSize transition' =
     (let frontBaseHeight = height (frontBase clockHand');
          frontBaseWidth = width (frontBase clockHand');
          backHeight = height (backPart clockHand');
          backWidth = width (backPart clockHand')
      in \<lparr>hand_height = fadd backHeight frontBaseHeight,
          hand_width = resolvedHandWidth frontBaseWidth backWidth,
          hand_back_height = backHeight,
          hand_rotate = degrees,
          transition_ms = transition',
          hand_origin = backHeight\<rparr>)"

text \<open>Lines 631 to 635: \<open>--hand-translate\<close> of the front part.\<close>

definition ClockHand_front_translate :: "clockHand \<Rightarrow> double \<Rightarrow> double" where
  "ClockHand_front_translate clockHand' pivotSize =
     fneg (frontAlignmentTranslation (alignment (front clockHand')) (height (front clockHand'))
         (height (frontBase clockHand')) pivotSize)"

section \<open>ClockInterface (src/src/Clock.tsx, lines 645 to 717)\<close>

text \<open>A valid date, by what \<open>getHours\<close>, \<open>getMinutes\<close> and \<open>getSeconds\<close> return.\<close>

record date =
  getHours :: nat
  getMinutes :: nat
  getSeconds :: nat

record degRotations =
  hour :: double
  minute :: double
  second :: double

text \<open>
  The state of a mounted \<open>ClockInterface\<close>: the \<open>degRotations\<close> of \<open>useState\<close>, and
  whether the interval of \<open>setInterval\<close> is armed.
\<close>

record interfaceState =
  rotations :: degRotations
  interval :: bool

text \<open>Lines 652 to 658: the state at mount, before the effect has run.\<close>

definition mounted :: interfaceState where
  "mounted =
     \<lparr>rotations = \<lparr>hour = Finite 0, minute = Finite 0, second = Finite 0\<rparr>, interval = False\<rparr>"

text \<open>Lines 666 to 670, operation by operation.\<close>

definition initialHourDeg :: "date \<Rightarrow> double" where
  "initialHourDeg time =
     fadd (fmul (fdiv (num (getHours time mod 12)) (Finite 12)) (Finite 360))
          (fmul (fdiv (num (getMinutes time)) (Finite 60)) (Finite 30))"

definition initialMinuteDeg :: "date \<Rightarrow> double" where
  "initialMinuteDeg time =
     fadd (fmul (fdiv (num (getMinutes time)) (Finite 60)) (Finite 360))
          (fmul (fdiv (num (getSeconds time)) (Finite 60)) (Finite 6))"

definition initialSecondDeg :: "date \<Rightarrow> double" where
  "initialSecondDeg time = fmul (fdiv (num (getSeconds time)) (Finite 60)) (Finite 360)"

text \<open>
  Lines 663 to 688: one run of the effect, for the \<open>dynamic\<close> and \<open>time\<close> of the
  render it belongs to. React first runs the cleanup the previous run returned
  (\<open>clearInterval\<close>; a run that returned at line 664 armed nothing), then the body.
\<close>

definition cleanup :: "interfaceState \<Rightarrow> interfaceState" where
  "cleanup s = s\<lparr>interval := False\<rparr>"

definition effect :: "bool \<Rightarrow> date \<Rightarrow> interfaceState \<Rightarrow> interfaceState" where
  "effect dynamic time s =
     (let s' = cleanup s in
      if \<not> dynamic then s'
      else s'\<lparr>rotations :=
                 \<lparr>hour = initialHourDeg time,
                  minute = initialMinuteDeg time,
                  second = initialSecondDeg time\<rparr>,
              interval := True\<rparr>)"

text \<open>
  Lines 679 to 685: the callback of the interval. It fires only while armed. The
  literal \<open>0.1\<close> is the double nearest to one tenth; \<open>1 / 120\<close> is a division.
\<close>

definition advance :: "degRotations \<Rightarrow> degRotations" where
  "advance prev =
     \<lparr>hour = fadd (hour prev) (fdiv (Finite 1) (Finite 120)),
      minute = fadd (minute prev) (round_double (1 / 10)),
      second = fadd (second prev) (Finite 6)\<rparr>"

definition tick :: "interfaceState \<Rightarrow> interfaceState" where
  "tick s = (if interval s then s\<lparr>rotations := advance (rotations s)\<rparr> else s)"

text \<open>
  What can happen to a mounted interface: the effect runs (at mount, and whenever
  \<open>time\<close> or \<open>dynamic\<close> changed), a second elapses, or the component unmounts.
\<close>

datatype event = Effect bool date | Tick | Unmount

fun step :: "interfaceState \<Rightarrow> event \<Rightarrow> interfaceState" where
  "step s (Effect dynamic time) = effect dynamic time s"
| "step s Tick = tick s"
| "step s Unmount = cleanup s"

definition run :: "event list \<Rightarrow> interfaceState \<Rightarrow> interfaceState" where
  "run evs s = foldl step s evs"

fun nondynamic :: "event \<Rightarrow> bool" where
  "nondynamic (Effect dynamic time) = (\<not> dynamic)"
| "nondynamic Tick = True"
| "nondynamic Unmount = True"

section \<open>JavaScript values\<close>

text \<open>
  A value as \<open>defaultFill\<close> sees it. An object is its kind and the list of its
  properties in enumeration order, as \<open>for ... in\<close>, \<open>in\<close> and a property read see
  them; each key occurs once (\<open>wf_jsval\<close>). The kinds are those \<open>isObject\<close> tells
  apart; an object of any other class counts as \<open>PlainObject\<close>, and \<open>HostObject\<close>
  stands for the objects the structured clone algorithm refuses. Object identity is
  not part of a value; it is the subject of the section on the store.
\<close>

datatype objectKind =
  PlainObject | ArrayObject | RegExpObject | DateObject | SetObject | MapObject | HostObject

datatype jsval =
    JUndefined
  | JNull
  | JBoolean bool
  | JNumber double
  | JString string
  | JBigInt int
  | JSymbol string
  | JFunction string
  | JObject objectKind "(string \<times> jsval) list"

fun typeof :: "jsval \<Rightarrow> string" where
  "typeof JUndefined = ''undefined''"
| "typeof JNull = ''object''"
| "typeof (JBoolean b) = ''boolean''"
| "typeof (JNumber n) = ''number''"
| "typeof (JString s) = ''string''"
| "typeof (JBigInt i) = ''bigint''"
| "typeof (JSymbol s) = ''symbol''"
| "typeof (JFunction f) = ''function''"
| "typeof (JObject k ps) = ''object''"

fun instanceof :: "jsval \<Rightarrow> objectKind \<Rightarrow> bool" where
  "instanceof (JObject k ps) c = (k = c)"
| "instanceof v c = False"

definition isArray :: "jsval \<Rightarrow> bool" where
  "isArray v = instanceof v ArrayObject"

text \<open>src/unnamed/part_001, lines 4 to 14.\<close>

definition isObject :: "jsval \<Rightarrow> bool" where
  "isObject v = (typeof v = ''object'' \<and> v \<noteq> JNull \<and> \<not> isArray v \<and>
     \<not> instanceof v RegExpObject \<and> \<not> instanceof v DateObject \<and>
     \<not> instanceof v SetObject \<and> \<not> instanceof v MapObject)"

fun properties :: "jsval \<Rightarrow> (string \<times> jsval) list" where
  "properties (JObject k ps) = ps"
| "properties v = []"

text \<open>\<open>key in v\<close>, \<open>v[key]\<close> and \<open>v[key] = x\<close>.\<close>

definition has_key :: "string \<Rightarrow> jsval \<Rightarrow> bool" where
  "has_key key v = (key \<in> fst ` set (properties v))"

definition get :: "jsval \<Rightarrow> string \<Rightarrow> jsval" where
  "get v key = (case map_of (properties v) key of None \<Rightarrow> JUndefined | Some x \<Rightarrow> x)"

fun assign :: "jsval \<Rightarrow> string \<Rightarrow> jsval \<Rightarrow> jsval" where
  "assign (JObject k ps) key x = JObject k (AList.update key x ps)"
| "assign v key x = v"

text \<open>
  \<open>structuredClone\<close>: a copy of the value, or the \<open>DataCloneError\<close> it throws on a
  symbol, a function or a host object anywhere inside.
\<close>

datatype error = DataCloneError

fun structuredClone :: "jsval \<Rightarrow> error + jsval"
  and structuredClone_properties :: "(string \<times> jsval) list \<Rightarrow> error + (string \<times> jsval) list" where
  "structuredClone (JSymbol s) = Inl DataCloneError"
| "structuredClone (JFunction f) = Inl DataCloneError"
| "structuredClone (JObject k ps) =
     (if k = HostObject then Inl DataCloneError
      else case structuredClone_properties ps of
             Inl e \<Rightarrow> Inl e
           | Inr ps' \<Rightarrow> Inr (JObject k ps'))"
| "structuredClone v = Inr v"
| "structuredClone_properties [] = Inr []"
| "structuredClone_properties ((key, v) # ps) =
     (case structuredClone v of
        Inl e \<Rightarrow> Inl e
      | Inr v' \<Rightarrow>
          (case structuredClone_properties ps of
             Inl e \<Rightarrow> Inl e
           | Inr ps' \<Rightarrow> Inr ((key, v') # ps')))"

section \<open>defaultFill (src/unnamed/part_001, lines 19 to 46)\<close>

text \<open>
  A call of \<open>console.warn\<close> (lines 30 to 34). What it prints of the mismatch is the
  user's value, under the literal name \<open>key\<close>.
\<close>

datatype warning = BadKeyValue jsval

text \<open>
  \<open>defaultFill\<close> returns the warnings it has printed, in order, and its result or
  the error thrown. \<open>defaultFill_keys\<close> is the loop of lines 22 to 43 over the
  properties of \<open>defaultObj\<close> that are still to visit; it carries \<open>newObject\<close>.
\<close>

function defaultFill :: "jsval \<Rightarrow> jsval \<Rightarrow> warning list \<times> (error + jsval)"
  and defaultFill_keys ::
    "(string \<times> jsval) list \<Rightarrow> jsval \<Rightarrow> jsval \<Rightarrow> warning list \<times> (error + jsval)" where
  "defaultFill defaultObj userObj =
     (case structuredClone defaultObj of
        Inl e \<Rightarrow> ([], Inl e)
      | Inr newObject \<Rightarrow>
          if isObject defaultObj \<and> isObject userObj
          then defaultFill_keys (properties defaultObj) userObj newObject
          else ([], Inr newObject))"
| "defaultFill_keys [] userObj newObject = ([], Inr newObject)"
| "defaultFill_keys ((key, defaultVal) # keys) userObj newObject =
     (if has_key key userObj \<and> get userObj key \<noteq> JUndefined then
        (let userVal = get userObj key in
         if typeof defaultVal \<noteq> typeof userVal then
           (case defaultFill_keys keys userObj newObject of
              (ws, r) \<Rightarrow> (BadKeyValue userVal # ws, r))
         else if isObject defaultVal then
           (case defaultFill defaultVal userVal of
              (ws, Inl e) \<Rightarrow> (ws, Inl e)
            | (ws, Inr v) \<Rightarrow>
                (case defaultFill_keys keys userObj (assign newObject key v) of
                   (ws', r) \<Rightarrow> (ws @ ws', r)))
         else defaultFill_keys keys userObj (assign newObject key userVal))
      else defaultFill_keys keys userObj newObject)"
  by pat_completeness auto
termination
  apply (relation "measure (\<lambda>x. case x of
            Inl (d, u) \<Rightarrow> 2 * size d + 1
          | Inr (ps, u, n) \<Rightarrow> 2 * size_list (size_prod (\<lambda>_. 0) size) ps)")
  apply auto
  subgoal for d u n by (cases d) (auto simp: isObject_def)
  done

declare defaultFill.simps [simp del]

text \<open>The default tree of the clock (src/src/Clock.tsx, lines 299 to 433).\<close>

definition obj :: "(string \<times> jsval) list \<Rightarrow> jsval" where
  "obj ps = JObject PlainObject ps"

definition number :: "real \<Rightarrow> jsval" where
  "number x = JNumber (Finite x)"

definition OPTIONS :: jsval where
  "OPTIONS = obj
     [(''size'', number 400),
      (''face'', obj
         [(''background'', JString ''white''),
          (''show'', JBoolean True),
          (''padding'', number 0),
          (''ticks'', obj
             [(''show'', JBoolean True),
              (''regular'', obj
                 [(''show'', JBoolean True),
                  (''height'', number 20),
                  (''width'', number 4),
                  (''background'', JString ''rgb(200 200 200)''),
                  (''radius'', number 2)]),
              (''secondary'', obj
                 [(''show'', JBoolean True),
                  (''height'', number 28),
                  (''width'', number 4),
                  (''background'', JString ''black''),
                  (''radius'', number 2)]),
              (''primary'', obj
                 [(''show'', JBoolean True),
                  (''height'', number 36),
                  (''width'', number 8),
                  (''background'', JString ''rgb(0 122 255)''),
                  (''radius'', number 3)])]),
          (''counts'', obj
             [(''show'', JBoolean True),
              (''secondary'', obj
                 [(''show'', JBoolean True),
                  (''size'', number 20),
                  (''color'', JString ''rgb(100 100 100)''),
                  (''background'', JString ''rgb(0 122 255 / 0)''),
                  (''gap'', number 5)]),
              (''primary'', obj
                 [(''show'', JBoolean True),
                  (''size'', number 25),
                  (''color'', JString ''black''),
                  (''background'', JString ''rgb(0 122 255 / 0.08)''),
                  (''gap'', number 5)])])]),
      (''interface'', obj
         [(''show'', JBoolean True),
          (''dynamic'', JBoolean True),
          (''transition'', number 300),
          (''pivot'', obj
             [(''show'', JBoolean True),
              (''size'', number 20),
              (''background'', JString ''rgb(0 0 0)'')]),
          (''hourHand'', obj
             [(''show'', JBoolean True),
              (''front'', obj
                 [(''show'', JBoolean True),
                  (''background'', JString ''black''),
                  (''radius'', number 4),
                  (''width'', number 12),
                  (''height'', number 80),
                  (''alignment'', JString ''CENTER'')]),
              (''frontBase'', obj
                 [(''show'', JBoolean True),
                  (''background'', JString ''grey''),
                  (''radius'', number 2),
                  (''width'', number 4),
                  (''height'', number 120)]),
              (''back'', obj
                 [(''show'', JBoolean True),
                  (''background'', JString ''grey''),
                  (''radius'', number 2),
                  (''width'', number 4),
                  (''height'', number 24)])]),
          (''minuteHand'', obj
             [(''show'', JBoolean True),
              (''front'', obj
                 [(''show'', JBoolean True),
                  (''background'', JString ''black''),
                  (''radius'', number 4),
                  (''width'', number 8),
                  (''height'', number 120),
                  (''alignment'', JString ''TICK'')]),
              (''frontBase'', obj
                 [(''show'', JBoolean True),
                  (''background'', JString ''grey''),
                  (''radius'', number 2),
                  (''width'', number 4),
                  (''height'', number 150)]),
              (''back'', obj
                 [(''show'', JBoolean True),
                  (''background'', JString ''grey''),
                  (''radius'', number 2),
                  (''width'', number 4),
                  (''height'', number 30)])]),
          (''secondHand'', obj
             [(''show'', JBoolean True),
              (''front'', obj
                 [(''show'', JBoolean True),
                  (''background'', JString ''red''),
                  (''radius'', number 4),
                  (''width'', number 6),
                  (''height'', number 120),
                  (''alignment'', JString ''CENTER'')]),
              (''frontBase'', obj
                 [(''show'', JBoolean True),
                  (''background'', JString ''orange''),
                  (''radius'', number 2),
                  (''width'', number 4),
                  (''height'', number 150)]),
              (''back'', obj
                 [(''show'', JBoolean True),
                  (''background'', JString ''grey''),
                  (''radius'', number 2),
                  (''width'', number 4),
                  (''height'', number 30)])])])]"

section \<open>Shapes, paths and the fields of the result\<close>

text \<open>What the source takes for granted of an object: no key occurs twice.\<close>

fun wf_jsval :: "jsval \<Rightarrow> bool" where
  "wf_jsval (JObject k ps) = (distinct (map fst ps) \<and> (\<forall>p \<in> set ps. wf_jsval (snd p)))"
| "wf_jsval v = True"

text \<open>\<open>structuredClone\<close> does not throw on the value.\<close>

definition cloneable :: "jsval \<Rightarrow> bool" where
  "cloneable v = (structuredClone v = Inr v)"

text \<open>
  \<open>conforms d r\<close>: \<open>r\<close> has the \<open>typeof\<close> of \<open>d\<close>, and where \<open>d\<close> is an object
  that \<open>isObject\<close> accepts, so is \<open>r\<close>, with the same keys in the same order and,
  key by key, a value that conforms to that of \<open>d\<close>. The type of a field is its
  \<open>typeof\<close>, as at line 29 of the source.
\<close>

fun conforms :: "jsval \<Rightarrow> jsval \<Rightarrow> bool" where
  "conforms (JObject k ps) r =
     (typeof r = ''object'' \<and>
      (isObject (JObject k ps) \<longrightarrow>
         isObject r \<and>
         list_all2 (\<lambda>p q. fst q = fst p \<and> conforms (snd p) (snd q)) ps (properties r)))"
| "conforms d r = (typeof r = typeof d)"

text \<open>The structure of a value: its keys, in order, down to the \<open>typeof\<close> of each leaf.\<close>

datatype shape = Leaf string | Node "(string \<times> shape) list"

fun shape_of :: "jsval \<Rightarrow> shape" where
  "shape_of (JObject k ps) =
     (if isObject (JObject k ps) then Node (map (\<lambda>p. (fst p, shape_of (snd p))) ps)
      else Leaf ''object'')"
| "shape_of v = Leaf (typeof v)"

text \<open>
  A configuration tree, as the spec describes the default tree: plain records, no key
  twice, whose other fields are booleans, numbers and strings.
\<close>

fun config_tree :: "jsval \<Rightarrow> bool" where
  "config_tree (JObject k ps) =
     (k = PlainObject \<and> distinct (map fst ps) \<and> (\<forall>p \<in> set ps. config_tree (snd p)))"
| "config_tree (JBoolean b) = True"
| "config_tree (JNumber n) = True"
| "config_tree (JString s) = True"
| "config_tree v = False"



text \<open>
  What one turn of the loop, for the property \<open>p\<close> of the default, leaves in
  \<open>newObject\<close> under that key, and what it prints. Both are stated for the proofs;
  \<open>defaultFill_eq\<close> below shows that the loop computes them.
\<close>

definition field :: "jsval \<Rightarrow> string \<times> jsval \<Rightarrow> string \<times> jsval" where
  "field userObj p =
     (let key = fst p; defaultVal = snd p; userVal = get userObj key in
      if has_key key userObj \<and> userVal \<noteq> JUndefined \<and> typeof defaultVal = typeof userVal
      then (key, if isObject defaultVal
                 then (case snd (defaultFill defaultVal userVal) of Inr v \<Rightarrow> v | Inl e \<Rightarrow> defaultVal)
                 else userVal)
      else p)"

definition field_warnings :: "jsval \<Rightarrow> string \<times> jsval \<Rightarrow> warning list" where
  "field_warnings userObj p =
     (let key = fst p; defaultVal = snd p; userVal = get userObj key in
      if has_key key userObj \<and> userVal \<noteq> JUndefined then
        if typeof defaultVal \<noteq> typeof userVal then [BadKeyValue userVal]
        else if isObject defaultVal then fst (defaultFill defaultVal userVal)
        else []
      else [])"

text \<open>Merging a result of the merge again returns it, and prints nothing.\<close>

definition refill_stable :: "jsval \<Rightarrow> bool" where
  "refill_stable d =
     (\<forall>u ws r. defaultFill d u = (ws, Inr r) \<longrightarrow> defaultFill d r = ([], Inr r))"

text \<open>The user options of the example: \<open>{face: {padding: '10'}}\<close>.\<close>

definition padding_as_string :: jsval where
  "padding_as_string = obj [(''face'', obj [(''padding'', JString ''10'')])]"

section \<open>The store: objects with identity\<close>

text \<open>
  Whether \<open>defaultFill\<close> changes an object of its caller, and whether its result
  shares an object with an argument, depends on which object is which. Here an object
  lives in a cell of a store and a value refers to it by its address (\<open>HRef\<close>);
  two references are the same object when the addresses are equal. The objects that
  exist are the cells below \<open>next_free\<close>; a new object takes the cell
  \<open>next_free\<close>. A function is an object too: \<open>typeof\<close> tells it apart.
\<close>

type_synonym addr = nat

datatype hval =
    HUndefined
  | HNull
  | HBoolean bool
  | HNumber double
  | HString string
  | HBigInt int
  | HSymbol string
  | HRef addr

datatype hobject = HFunction string | HObject objectKind "(string \<times> hval) list"

record heap =
  cells :: "addr \<Rightarrow> hobject"
  next_free :: addr

text \<open>Reading: \<open>typeof\<close>, \<open>instanceof\<close>, \<open>isObject\<close> (lines 4 to 14), \<open>in\<close> and a property read.\<close>

fun slots :: "hobject \<Rightarrow> (string \<times> hval) list" where
  "slots (HObject k ps) = ps"
| "slots (HFunction f) = []"

fun typeof_h :: "heap \<Rightarrow> hval \<Rightarrow> string" where
  "typeof_h h HUndefined = ''undefined''"
| "typeof_h h HNull = ''object''"
| "typeof_h h (HBoolean b) = ''boolean''"
| "typeof_h h (HNumber n) = ''number''"
| "typeof_h h (HString s) = ''string''"
| "typeof_h h (HBigInt i) = ''bigint''"
| "typeof_h h (HSymbol s) = ''symbol''"
| "typeof_h h (HRef a) = (case cells h a of HFunction f \<Rightarrow> ''function'' | HObject k ps \<Rightarrow> ''object'')"

fun instanceof_h :: "heap \<Rightarrow> hval \<Rightarrow> objectKind \<Rightarrow> bool" where
  "instanceof_h h (HRef a) c = (case cells h a of HFunction f \<Rightarrow> False | HObject k ps \<Rightarrow> k = c)"
| "instanceof_h h v c = False"

definition isObject_h :: "heap \<Rightarrow> hval \<Rightarrow> bool" where
  "isObject_h h v = (typeof_h h v = ''object'' \<and> v \<noteq> HNull \<and> \<not> instanceof_h h v ArrayObject \<and>
     \<not> instanceof_h h v RegExpObject \<and> \<not> instanceof_h h v DateObject \<and>
     \<not> instanceof_h h v SetObject \<and> \<not> instanceof_h h v MapObject)"

fun properties_h :: "heap \<Rightarrow> hval \<Rightarrow> (string \<times> hval) list" where
  "properties_h h (HRef a) = slots (cells h a)"
| "properties_h h v = []"

definition has_key_h :: "heap \<Rightarrow> string \<Rightarrow> hval \<Rightarrow> bool" where
  "has_key_h h key v = (key \<in> fst ` set (properties_h h v))"

definition get_h :: "heap \<Rightarrow> hval \<Rightarrow> string \<Rightarrow> hval" where
  "get_h h v key = (case map_of (properties_h h v) key of None \<Rightarrow> HUndefined | Some x \<Rightarrow> x)"

text \<open>
  Writing: \<open>store\<close> replaces a cell, \<open>alloc\<close> makes a new object, and
  \<open>assign_h h newObject key x\<close> is \<open>newObject[key] = x\<close>, which changes the
  object \<open>newObject\<close> refers to, in place.
\<close>

definition store :: "heap \<Rightarrow> addr \<Rightarrow> hobject \<Rightarrow> heap" where
  "store h a c = h\<lparr>cells := (cells h)(a := c)\<rparr>"

definition alloc :: "heap \<Rightarrow> hobject \<Rightarrow> addr \<times> heap" where
  "alloc h c = (next_free h, \<lparr>cells = (cells h)(next_free h := c), next_free = Suc (next_free h)\<rparr>)"

fun assign_h :: "heap \<Rightarrow> hval \<Rightarrow> string \<Rightarrow> hval \<Rightarrow> heap" where
  "assign_h h (HRef a) key x =
     (case cells h a of
        HObject k ps \<Rightarrow> store h a (HObject k (AList.update key x ps))
      | HFunction f \<Rightarrow> h)"
| "assign_h h v key x = h"

text \<open>
  \<open>structuredClone\<close> copies the object graph below a value into new cells. The
  memory \<open>m\<close> maps each object already visited to its copy, so that an object
  reached twice is copied once. It throws on a symbol, a function and a host object.
  The first argument bounds the depth of the descent: at \<open>0\<close> no object is entered
  and the result is \<open>None\<close>.
\<close>

type_synonym memo = "(addr \<times> addr) list"

fun structuredClone_h :: "nat \<Rightarrow> heap \<Rightarrow> memo \<Rightarrow> hval \<Rightarrow> ((error + hval) \<times> heap \<times> memo) option"
  and structuredClone_slots ::
    "nat \<Rightarrow> heap \<Rightarrow> memo \<Rightarrow> (string \<times> hval) list \<Rightarrow> ((error + (string \<times> hval) list) \<times> heap \<times> memo) option"
  where
  "structuredClone_h n h m (HSymbol s) = Some (Inl DataCloneError, h, m)"
| "structuredClone_h 0 h m (HRef a) = None"
| "structuredClone_h (Suc n) h m (HRef a) =
     (case map_of m a of
        Some b \<Rightarrow> Some (Inr (HRef b), h, m)
      | None \<Rightarrow>
          (case cells h a of
             HFunction f \<Rightarrow> Some (Inl DataCloneError, h, m)
           | HObject k ps \<Rightarrow>
               if k = HostObject then Some (Inl DataCloneError, h, m)
               else
                 (case alloc h (HObject k []) of
                    (b, h1) \<Rightarrow>
                      (case structuredClone_slots n h1 ((a, b) # m) ps of
                         None \<Rightarrow> None
                       | Some (Inl e, h2, m2) \<Rightarrow> Some (Inl e, h2, m2)
                       | Some (Inr ps', h2, m2) \<Rightarrow>
                           Some (Inr (HRef b), store h2 b (HObject k ps'), m2)))))"
| "structuredClone_h n h m v = Some (Inr v, h, m)"
| "structuredClone_slots n h m [] = Some (Inr [], h, m)"
| "structuredClone_slots n h m ((key, v) # ps) =
     (case structuredClone_h n h m v of
        None \<Rightarrow> None
      | Some (Inl e, h1, m1) \<Rightarrow> Some (Inl e, h1, m1)
      | Some (Inr v', h1, m1) \<Rightarrow>
          (case structuredClone_slots n h1 m1 ps of
             None \<Rightarrow> None
           | Some (Inl e, h2, m2) \<Rightarrow> Some (Inl e, h2, m2)
           | Some (Inr ps', h2, m2) \<Rightarrow> Some (Inr ((key, v') # ps'), h2, m2)))"

text \<open>
  \<open>defaultFill\<close> over the store, line by line as before. The keys of \<open>for ... in\<close>
  are those of the default when the loop starts; every other read (\<open>key in userObj\<close>,
  \<open>userObj[key]\<close>, \<open>defaultObj[key]\<close>, \<open>typeof\<close>) is made in the store of that
  moment. The first argument bounds the depth of the recursion (line 38).
\<close>

datatype hwarning = BadKeyValue_h hval

fun defaultFill_h ::
    "nat \<Rightarrow> heap \<Rightarrow> hval \<Rightarrow> hval \<Rightarrow> (hwarning list \<times> (error + hval) \<times> heap) option"
  and defaultFill_h_keys ::
    "nat \<Rightarrow> heap \<Rightarrow> string list \<Rightarrow> hval \<Rightarrow> hval \<Rightarrow> hval \<Rightarrow>
     (hwarning list \<times> (error + hval) \<times> heap) option"
  where
  "defaultFill_h 0 h defaultObj userObj = None"
| "defaultFill_h (Suc n) h defaultObj userObj =
     (case structuredClone_h (Suc n) h [] defaultObj of
        None \<Rightarrow> None
      | Some (Inl e, h1, m) \<Rightarrow> Some ([], Inl e, h1)
      | Some (Inr newObject, h1, m) \<Rightarrow>
          if isObject_h h1 defaultObj \<and> isObject_h h1 userObj
          then defaultFill_h_keys n h1 (map fst (properties_h h1 defaultObj))
                 defaultObj userObj newObject
          else Some ([], Inr newObject, h1))"
| "defaultFill_h_keys n h [] defaultObj userObj newObject = Some ([], Inr newObject, h)"
| "defaultFill_h_keys n h (key # keys) defaultObj userObj newObject =
     (if has_key_h h key userObj \<and> get_h h userObj key \<noteq> HUndefined then
        (let defaultVal = get_h h defaultObj key; userVal = get_h h userObj key in
         if typeof_h h defaultVal \<noteq> typeof_h h userVal then
           (case defaultFill_h_keys n h keys defaultObj userObj newObject of
              None \<Rightarrow> None
            | Some (ws, r, h') \<Rightarrow> Some (BadKeyValue_h userVal # ws, r, h'))
         else if isObject_h h defaultVal then
           (case defaultFill_h n h defaultVal userVal of
              None \<Rightarrow> None
            | Some (ws, Inl e, h1) \<Rightarrow> Some (ws, Inl e, h1)
            | Some (ws, Inr v, h1) \<Rightarrow>
                (case defaultFill_h_keys n (assign_h h1 newObject key v) keys
                        defaultObj userObj newObject of
                   None \<Rightarrow> None
                 | Some (ws', r, h2) \<Rightarrow> Some (ws @ ws', r, h2)))
         else defaultFill_h_keys n (assign_h h newObject key userVal) keys
                defaultObj userObj newObject)
      else defaultFill_h_keys n h keys defaultObj userObj newObject)"

text \<open>
  \<open>frame h h'\<close>: every object of \<open>h\<close> is in \<open>h'\<close> as it was; \<open>frame_upto b\<close>
  says so of the cells below \<open>b\<close>.
\<close>

definition frame_upto :: "nat \<Rightarrow> heap \<Rightarrow> heap \<Rightarrow> bool" where
  "frame_upto b h h' = (next_free h \<le> next_free h' \<and> (\<forall>a<b. cells h' a = cells h a))"




definition memo_ok :: "nat \<Rightarrow> heap \<Rightarrow> memo \<Rightarrow> bool" where
  "memo_ok b h m = (\<forall>p \<in> set m. b \<le> snd p \<and> snd p < next_free h)"

text \<open>
  A value of depth at most \<open>n\<close>: no chain of references from it is longer, so it
  has no cycle. Its objects may be of any kind.
\<close>

fun tree_n :: "nat \<Rightarrow> heap \<Rightarrow> hval \<Rightarrow> bool" where
  "tree_n 0 h (HRef a) = False"
| "tree_n (Suc n) h (HRef a) =
     (a < next_free h \<and> (\<forall>p \<in> set (slots (cells h a)). tree_n n h (snd p)))"
| "tree_n n h v = True"

text \<open>
  A default tree of depth at most \<open>n\<close> all of whose fields are plain records,
  booleans, numbers, strings, bigints or \<open>undefined\<close>: no \<open>null\<close>, no array, date,
  regular expression, set or map, no function and no symbol.
\<close>

fun plain_tree_n :: "nat \<Rightarrow> heap \<Rightarrow> hval \<Rightarrow> bool" where
  "plain_tree_n n h HNull = False"
| "plain_tree_n n h (HSymbol s) = False"
| "plain_tree_n 0 h (HRef a) = False"
| "plain_tree_n (Suc n) h (HRef a) =
     (a < next_free h \<and>
      (case cells h a of
         HFunction f \<Rightarrow> False
       | HObject k ps \<Rightarrow> k = PlainObject \<and> (\<forall>p \<in> set ps. plain_tree_n n h (snd p))))"
| "plain_tree_n n h v = True"






section \<open>Lemmas: rounding\<close>

lemma round_even_of_int [simp]: "round_even (of_int n) = n"
  by (simp add: round_even_def)

lemma log2_powi: "log 2 (2 powi k) = of_int k"
proof -
  have "(2::real) powi k = 2 powr of_int k"
    by (simp add: powr_real_of_int')
  then show ?thesis by simp
qed

lemma floor_log2_less:
  assumes "x \<noteq> 0" and "\<bar>x\<bar> < 2 powi k"
  shows "\<lfloor>log 2 \<bar>x\<bar>\<rfloor> < k"
proof -
  have "log 2 \<bar>x\<bar> < log 2 (2 powi k)"
    using assms by (simp add: log_less_cancel_iff)
  also have "log 2 (2 powi k) = of_int k"
    by (rule log2_powi)
  finally show ?thesis by (simp add: floor_less_iff)
qed

lemma floor_log2_eq:
  assumes "2 powi e \<le> \<bar>x\<bar>" and "\<bar>x\<bar> < 2 powi (e + 1)"
  shows "\<lfloor>log 2 \<bar>x\<bar>\<rfloor> = e"
proof -
  have pos: "0 < \<bar>x\<bar>"
    using assms(1) by (smt (verit) zero_less_power_int)
  have "log 2 (2 powi e) \<le> log 2 \<bar>x\<bar>"
    using assms(1) pos by (simp add: log_le_cancel_iff)
  moreover have "log 2 \<bar>x\<bar> < log 2 (2 powi (e + 1))"
    using assms(2) pos by (simp add: log_less_cancel_iff)
  ultimately show ?thesis
    by (simp add: log2_powi floor_eq_iff)
qed

lemma nearest_exact:
  assumes x: "x = of_int m * 2 powi k" and m: "\<bar>m\<bar> < 2 ^ 53" and k: "- 1074 \<le> k"
  shows "nearest x = x"
proof (cases "x = 0")
  case True
  then show ?thesis by (simp add: nearest_def)
next
  case False
  define e where "e = ulp_exponent x"
  have "\<bar>x\<bar> = of_int \<bar>m\<bar> * 2 powi k"
    by (simp add: x abs_mult)
  also have "\<dots> < 2 ^ 53 * 2 powi k"
    using m by (intro mult_strict_right_mono) (simp_all add: of_int_less_iff [of _ "2 ^ 53", simplified])
  also have "\<dots> = 2 powi (53 + k)"
    by (simp add: power_int_add)
  finally have "\<lfloor>log 2 \<bar>x\<bar>\<rfloor> < 53 + k"
    by (rule floor_log2_less [OF False])
  with k have "e \<le> k"
    by (simp add: e_def ulp_exponent_def)
  then obtain j where j: "k = e + int j"
    by (metis zle_iff_zadd)
  have split: "(2::real) powi k = 2 ^ j * 2 powi e"
    by (simp add: j power_int_add)
  have "x / 2 powi e = of_int m * 2 ^ j"
    unfolding x split by simp
  also have "\<dots> = of_int (m * 2 ^ j)"
    by simp
  finally have "round_even (x / 2 powi e) = m * 2 ^ j"
    by (simp only: round_even_of_int)
  then have "nearest x = of_int (m * 2 ^ j) * 2 powi e"
    using False unfolding nearest_def e_def by simp
  also have "\<dots> = of_int m * (2 ^ j * 2 powi e)"
    by simp
  also have "\<dots> = x"
    unfolding x split ..
  finally show ?thesis .
qed

lemma round_double_exact:
  assumes "x * 2 ^ j = of_int m" and "\<bar>m\<bar> < 2 ^ 53" and "j \<le> 1074" and "\<bar>x\<bar> < 2 ^ 1024"
  shows "round_double x = Finite x"
proof -
  have "x = of_int m * 2 powi (- int j)"
    using assms(1) by (simp add: power_int_minus field_simps)
  then have "nearest x = x"
    by (rule nearest_exact [OF _ assms(2)]) (use assms(3) in simp)
  with assms(4) show ?thesis
    by (auto simp: round_double_def Let_def)
qed

lemma nearest_binade:
  assumes "2 powi e \<le> \<bar>x\<bar>" and "\<bar>x\<bar> < 2 powi (e + 1)" and "- 1022 \<le> e"
  shows "nearest x = of_int (round_even (x / 2 powi (e - 52))) * 2 powi (e - 52)"
proof -
  have "x \<noteq> 0"
    using assms(1) by (smt (verit) zero_less_power_int)
  moreover have "ulp_exponent x = e - 52"
    using floor_log2_eq [OF assms(1,2)] assms(3) by (simp add: ulp_exponent_def)
  ultimately show ?thesis by (simp add: nearest_def)
qed

text \<open>The values met in the examples below are doubles.\<close>

lemma exact_values:
  shows "round_double (1 / 4) = Finite (1 / 4)"
    and "round_double (1 / 2) = Finite (1 / 2)"
    and "round_double (15 / 2) = Finite (15 / 2)"
    and "round_double (195 / 2) = Finite (195 / 2)"
    and "round_double 3 = Finite 3"
    and "round_double 10 = Finite 10"
    and "round_double 15 = Finite 15"
    and "round_double 90 = Finite 90"
    and "round_double 93 = Finite 93"
    and "round_double 105 = Finite 105"
    and "round_double 144 = Finite 144"
    and "round_double 180 = Finite 180"
    and "round_double 183 = Finite 183"
    and "round_double (- 15) = Finite (- 15)"
    and "round_double (- 30) = Finite (- 30)"
    and "round_double (- 40) = Finite (- 40)"
proof -
  show "round_double (1 / 4) = Finite (1 / 4)"
    by (rule round_double_exact [of _ 2 1]) simp_all
  show "round_double (1 / 2) = Finite (1 / 2)"
    by (rule round_double_exact [of _ 1 1]) simp_all
  show "round_double (15 / 2) = Finite (15 / 2)"
    by (rule round_double_exact [of _ 1 15]) simp_all
  show "round_double (195 / 2) = Finite (195 / 2)"
    by (rule round_double_exact [of _ 1 195]) simp_all
  show "round_double 3 = Finite 3"
    by (rule round_double_exact [of _ 0 3]) simp_all
  show "round_double 10 = Finite 10"
    by (rule round_double_exact [of _ 0 10]) simp_all
  show "round_double 15 = Finite 15"
    by (rule round_double_exact [of _ 0 15]) simp_all
  show "round_double 90 = Finite 90"
    by (rule round_double_exact [of _ 0 90]) simp_all
  show "round_double 93 = Finite 93"
    by (rule round_double_exact [of _ 0 93]) simp_all
  show "round_double 105 = Finite 105"
    by (rule round_double_exact [of _ 0 105]) simp_all
  show "round_double 144 = Finite 144"
    by (rule round_double_exact [of _ 0 144]) simp_all
  show "round_double 180 = Finite 180"
    by (rule round_double_exact [of _ 0 180]) simp_all
  show "round_double 183 = Finite 183"
    by (rule round_double_exact [of _ 0 183]) simp_all
  show "round_double (- 15) = Finite (- 15)"
    by (rule round_double_exact [of _ 0 "- 15"]) simp_all
  show "round_double (- 30) = Finite (- 30)"
    by (rule round_double_exact [of _ 0 "- 30"]) simp_all
  show "round_double (- 40) = Finite (- 40)"
    by (rule round_double_exact [of _ 0 "- 40"]) simp_all
qed

lemma round_double_0 [simp]: "round_double 0 = Finite 0"
  by (simp add: round_double_def nearest_def)

text \<open>
  Rounding is not the identity: one twentieth is no double, and the double nearest to
  it is \<open>7205759403792794 / 2 ^ 57\<close>.
\<close>

lemma nearest_twentieth: "nearest (1 / 20) = 7205759403792794 / 2 ^ 57"
proof -
  have "nearest (1 / 20) = of_int (round_even ((1 / 20) / 2 powi (- 5 - 52))) * 2 powi (- 5 - 52)"
    by (rule nearest_binade) (simp_all add: power_int_minus)
  also have "(1 / 20 :: real) / 2 powi (- 5 - 52) = 144115188075855872 / 20"
    by (simp add: power_int_minus)
  also have "round_even (144115188075855872 / 20) = 7205759403792794"
    by (simp add: round_even_def Let_def)
  finally show ?thesis by (simp add: power_int_minus)
qed

section \<open>Theorems: hand geometry\<close>

text \<open>
  C7. The front part's alignment offset is \<open>frontHeight - frontBaseHeight\<close> for
  \<open>PIVOT\<close>, 0 for \<open>TICK\<close> and \<open>(frontHeight + pivotSize / 2 - frontBaseHeight) / 2\<close> for
  \<open>CENTER\<close>, each operation being that of the numbers (rounded to the nearest
  double); for \<open>frontHeight = 80\<close>, \<open>frontBaseHeight = 120\<close> and \<open>pivotSize = 20\<close>
  the three offsets are -40, 0 and -15.
\<close>

theorem alignment_offsets:
  "frontAlignmentTranslation ''PIVOT'' frontHeight frontBaseHeight pivotSize
     = fsub frontHeight frontBaseHeight
   \<and> frontAlignmentTranslation ''TICK'' frontHeight frontBaseHeight pivotSize = Finite 0
   \<and> frontAlignmentTranslation ''CENTER'' frontHeight frontBaseHeight pivotSize
     = fdiv (fsub (fadd frontHeight (fdiv pivotSize (Finite 2))) frontBaseHeight) (Finite 2)
   \<and> frontAlignmentTranslation ''PIVOT'' (Finite 80) (Finite 120) (Finite 20) = Finite (- 40)
   \<and> frontAlignmentTranslation ''TICK'' (Finite 80) (Finite 120) (Finite 20) = Finite 0
   \<and> frontAlignmentTranslation ''CENTER'' (Finite 80) (Finite 120) (Finite 20) = Finite (- 15)"
  by (simp add: frontAlignmentTranslation_def fsub_def exact_values)

text \<open>
  C9. The hand's rendered width is \<open>Math.max\<close> of the widths of \<open>frontBase\<close> and
  \<open>back\<close>, the larger of the two when both are finite; its rendered height is the
  sum, as numbers add, of the heights of \<open>back\<close> and \<open>frontBase\<close>, 144 for the
  heights 24 and 120; neither changes when the front part is replaced by any other.
\<close>

theorem hand_bounding_box:
  "hand_width (ClockHand_style h degrees pivotSize tr)
     = fmax (width (frontBase h)) (width (backPart h))
   \<and> fmax (Finite x) (Finite y) = Finite (max x y)
   \<and> hand_height (ClockHand_style h degrees pivotSize tr)
     = fadd (height (backPart h)) (height (frontBase h))
   \<and> fadd (Finite 24) (Finite 120) = Finite 144
   \<and> hand_width (ClockHand_style (h\<lparr>front := f\<rparr>) degrees pivotSize tr)
       = hand_width (ClockHand_style h degrees pivotSize tr)
   \<and> hand_height (ClockHand_style (h\<lparr>front := f\<rparr>) degrees pivotSize tr)
       = hand_height (ClockHand_style h degrees pivotSize tr)"
  by (simp add: ClockHand_style_def resolvedHandWidth_def Let_def exact_values)

section \<open>Theorems: rotation\<close>

lemma run_Nil: "run [] s = s"
  by (simp add: run_def)

lemma run_Cons: "run (e # evs) s = run evs (step s e)"
  by (simp add: run_def)

lemma run_snoc: "run (evs @ [e]) s = step (run evs s) e"
  by (simp add: run_def)

text \<open>
  C2. When \<open>dynamic\<close> holds, the run of the effect sets the three angles from the
  date by the continuous formulas, each operation being that of the numbers,
  whatever the state before; at 03:15:30 they are 97.5, 93 and 180.
\<close>

theorem continuous_angles:
  "rotations (effect True time s) =
     \<lparr>hour = fadd (fmul (fdiv (Finite (real (getHours time mod 12))) (Finite 12)) (Finite 360))
                  (fmul (fdiv (Finite (real (getMinutes time))) (Finite 60)) (Finite 30)),
      minute = fadd (fmul (fdiv (Finite (real (getMinutes time))) (Finite 60)) (Finite 360))
                    (fmul (fdiv (Finite (real (getSeconds time))) (Finite 60)) (Finite 6)),
      second = fmul (fdiv (Finite (real (getSeconds time))) (Finite 60)) (Finite 360)\<rparr>
   \<and> rotations (effect True \<lparr>getHours = 3, getMinutes = 15, getSeconds = 30\<rparr> s) =
     \<lparr>hour = Finite 97.5, minute = Finite 93, second = Finite 180\<rparr>"
  by (simp add: effect_def cleanup_def initialHourDeg_def initialMinuteDeg_def
      initialSecondDeg_def num_def exact_values)

text \<open>
  The rounding shows at 00:00:03: three sixtieths of six degrees are the double
  \<open>0.30000000000000004\<close>, which is \<open>5404319552844596 / 2 ^ 54\<close>, not three tenths.
\<close>

lemma minute_angle_at_00_00_03:
  "minute (rotations (effect True \<lparr>getHours = 0, getMinutes = 0, getSeconds = 3\<rparr> s))
     = Finite (5404319552844596 / 2 ^ 54)"
proof -
  have twentieth: "round_double (1 / 20) = Finite (7205759403792794 / 2 ^ 57)"
    by (simp add: round_double_def nearest_twentieth)
  have "nearest (6 * 7205759403792794 / 2 ^ 57)
      = of_int (round_even ((6 * 7205759403792794 / 2 ^ 57) / 2 powi (- 2 - 52))) * 2 powi (- 2 - 52)"
    by (rule nearest_binade) (simp_all add: power_int_minus)
  also have "(6 * 7205759403792794 / 2 ^ 57 :: real) / 2 powi (- 2 - 52) = 10808639105689191 / 2"
    by (simp add: power_int_minus)
  also have "round_even (10808639105689191 / 2) = 5404319552844596"
    by (simp add: round_even_def Let_def)
  finally have product: "round_double (6 * 7205759403792794 / 2 ^ 57) = Finite (5404319552844596 / 2 ^ 54)"
    by (simp add: round_double_def power_int_minus)
  have sum: "round_double (5404319552844596 / 2 ^ 54) = Finite (5404319552844596 / 2 ^ 54)"
    by (rule round_double_exact [of _ 54 5404319552844596]) simp_all
  show ?thesis
    using twentieth product sum
    by (simp add: effect_def cleanup_def initialMinuteDeg_def num_def)
qed

lemma run_ticks:
  "interval s \<Longrightarrow> run (replicate n Tick) s = s\<lparr>rotations := (advance ^^ n) (rotations s)\<rparr>"
proof (induction n)
  case 0
  then show ?case by (simp add: run_Nil)
next
  case (Suc n)
  have "run (replicate (Suc n) Tick) s = step (run (replicate n Tick) s) Tick"
    by (metis replicate_Suc replicate_append_same run_snoc)
  also have "\<dots> = tick (run (replicate n Tick) s)"
    by simp
  finally show ?case
    using Suc by (simp add: tick_def)
qed

text \<open>
  C8. While the interval is armed, a tick takes the angles of the state before it
  and adds, as numbers add, \<open>1 / 120\<close> to the hour angle, \<open>0.1\<close> to the minute angle
  and 6 to the second angle; no date is read. Hence \<open>n\<close> ticks after a run of the
  effect at \<open>time\<close> the angles are those of \<open>time\<close> advanced \<open>n\<close> times.
\<close>

theorem tick_increments:
  "rotations (step (s\<lparr>interval := True\<rparr>) Tick) =
     \<lparr>hour = fadd (hour (rotations s)) (fdiv (Finite 1) (Finite 120)),
      minute = fadd (minute (rotations s)) (round_double (1 / 10)),
      second = fadd (second (rotations s)) (Finite 6)\<rparr>
   \<and> rotations (run (replicate n Tick) (effect True time s)) =
     (advance ^^ n)
       \<lparr>hour = initialHourDeg time, minute = initialMinuteDeg time, second = initialSecondDeg time\<rparr>"
proof
  show "rotations (step (s\<lparr>interval := True\<rparr>) Tick) =
     \<lparr>hour = fadd (hour (rotations s)) (fdiv (Finite 1) (Finite 120)),
      minute = fadd (minute (rotations s)) (round_double (1 / 10)),
      second = fadd (second (rotations s)) (Finite 6)\<rparr>"
    by (simp add: tick_def advance_def)
next
  have "interval (effect True time s)"
    by (simp add: effect_def cleanup_def)
  from run_ticks [OF this, of n]
  show "rotations (run (replicate n Tick) (effect True time s)) =
     (advance ^^ n)
       \<lparr>hour = initialHourDeg time, minute = initialMinuteDeg time, second = initialSecondDeg time\<rparr>"
    by (simp add: effect_def cleanup_def)
qed

text \<open>
  The increments are doubles: the first tick after the zeros gives the hour angle
  \<open>4803839602528529 / 2 ^ 59\<close>, the double nearest to \<open>1 / 120\<close>.
\<close>

lemma hour_angle_after_first_tick:
  "hour (advance \<lparr>hour = Finite 0, minute = Finite 0, second = Finite 0\<rparr>)
     = Finite (4803839602528529 / 2 ^ 59)"
proof -
  have "nearest (1 / 120)
      = of_int (round_even ((1 / 120) / 2 powi (- 7 - 52))) * 2 powi (- 7 - 52)"
    by (rule nearest_binade) (simp_all add: power_int_minus)
  also have "(1 / 120 :: real) / 2 powi (- 7 - 52) = 576460752303423488 / 120"
    by (simp add: power_int_minus)
  also have "round_even (576460752303423488 / 120) = 4803839602528529"
    by (simp add: round_even_def Let_def)
  finally have quotient: "round_double (1 / 120) = Finite (4803839602528529 / 2 ^ 59)"
    by (simp add: round_double_def power_int_minus)
  have sum: "round_double (4803839602528529 / 2 ^ 59) = Finite (4803839602528529 / 2 ^ 59)"
    by (rule round_double_exact [of _ 59 4803839602528529]) simp_all
  show ?thesis
    using quotient sum by (simp add: advance_def)
qed

lemma nondynamic_step:
  "nondynamic e \<Longrightarrow> \<not> interval s \<Longrightarrow>
   rotations (step s e) = rotations s \<and> \<not> interval (step s e)"
  by (cases e) (simp_all add: effect_def cleanup_def tick_def)

lemma nondynamic_run:
  "list_all nondynamic evs \<Longrightarrow> \<not> interval s \<Longrightarrow>
   rotations (run evs s) = rotations s \<and> \<not> interval (run evs s)"
proof (induction evs arbitrary: s)
  case Nil
  then show ?case by (simp add: run_Nil)
next
  case (Cons e evs)
  from Cons.prems have e: "nondynamic e" and evs: "list_all nondynamic evs"
    by simp_all
  from nondynamic_step [OF e Cons.prems(2)]
  have "rotations (step s e) = rotations s" and "\<not> interval (step s e)"
    by simp_all
  with Cons.IH [OF evs, of "step s e"] show ?case
    by (simp add: run_Cons)
qed

text \<open>
  C10. From mount on, as long as every run of the effect has \<open>dynamic = false\<close>, the
  three angles are 0 after every sequence of effect runs, elapsed seconds and
  unmounts, whatever dates the effect is given, and no interval is ever armed.
\<close>

theorem nondynamic_stays_zero:
  "list_all nondynamic evs \<Longrightarrow>
   rotations (run evs mounted) = \<lparr>hour = Finite 0, minute = Finite 0, second = Finite 0\<rparr>
   \<and> \<not> interval (run evs mounted)"
  using nondynamic_run [of evs mounted] by (simp add: mounted_def)

theorem nondynamic_stays_zero_witness:
  "list_all nondynamic
     [Effect False \<lparr>getHours = 3, getMinutes = 15, getSeconds = 30\<rparr>, Tick,
      Effect False \<lparr>getHours = 17, getMinutes = 0, getSeconds = 59\<rparr>, Tick]
   \<and> rotations (run
       [Effect False \<lparr>getHours = 3, getMinutes = 15, getSeconds = 30\<rparr>, Tick,
        Effect False \<lparr>getHours = 17, getMinutes = 0, getSeconds = 59\<rparr>, Tick] mounted)
     = \<lparr>hour = Finite 0, minute = Finite 0, second = Finite 0\<rparr>"
  using nondynamic_stays_zero
    [of "[Effect False \<lparr>getHours = 3, getMinutes = 15, getSeconds = 30\<rparr>, Tick,
          Effect False \<lparr>getHours = 17, getMinutes = 0, getSeconds = 59\<rparr>, Tick]"]
  by simp

section \<open>Lemmas: defaultFill\<close>

lemma structuredClone_same:
  "structuredClone v = Inr v' \<Longrightarrow> v' = v"
  "structuredClone_properties ps = Inr ps' \<Longrightarrow> ps' = ps"
  by (induction v and ps arbitrary: v' and ps' rule: structuredClone_structuredClone_properties.induct)
     (auto split: if_splits sum.splits)

lemma structuredClone_properties_snd:
  "structuredClone_properties ps = Inr ps' \<Longrightarrow> p \<in> set ps \<Longrightarrow> structuredClone (snd p) = Inr (snd p)"
  by (induction ps arbitrary: ps') (auto split: sum.splits dest: structuredClone_same)

lemma cloneable_properties:
  "cloneable d \<Longrightarrow> p \<in> set (properties d) \<Longrightarrow> cloneable (snd p)"
  unfolding cloneable_def
  by (cases d) (auto split: if_splits sum.splits dest: structuredClone_properties_snd)

lemma isObject_JObject: "isObject d \<Longrightarrow> \<exists>k ps. d = JObject k ps"
  by (cases d) (auto simp: isObject_def)

lemma update_middle:
  "key \<notin> fst ` set pre \<Longrightarrow> AList.update key v (pre @ (key, x) # post) = pre @ (key, v) # post"
  by (induction pre) auto

lemma fst_field [simp]: "fst (field u p) = fst p"
  by (simp add: field_def Let_def)

lemma defaultFill_no_throw_aux:
  "(cloneable d \<longrightarrow> (\<exists>r. snd (defaultFill d u) = Inr r))"
  "((\<forall>p \<in> set ps. cloneable (snd p)) \<longrightarrow> (\<exists>r. snd (defaultFill_keys ps u n) = Inr r))"
proof (induction d u and ps u n rule: defaultFill_defaultFill_keys.induct)
  case (1 defaultObj userObj)
  then show ?case
    by (auto simp: defaultFill.simps cloneable_def dest: cloneable_properties[unfolded cloneable_def])
next
  case (2 userObj newObject)
  then show ?case by simp
next
  case (3 key defaultVal keys userObj newObject)
  then show ?case
    by (auto simp: Let_def split: prod.splits sum.splits)
qed

lemma defaultFill_no_throw:
  "cloneable d \<Longrightarrow> \<exists>ws r. defaultFill d u = (ws, Inr r)"
  using defaultFill_no_throw_aux(1) [of d u] by (cases "defaultFill d u") auto

lemma defaultFill_keys_eq:
  "distinct (map fst (pre @ ps)) \<Longrightarrow> \<forall>p \<in> set ps. cloneable (snd p) \<Longrightarrow>
   defaultFill_keys ps u (JObject k (pre @ ps)) =
     (concat (map (field_warnings u) ps), Inr (JObject k (pre @ map (field u) ps)))"
proof (induction ps arbitrary: pre)
  case Nil
  then show ?case by simp
next
  case (Cons p ps)
  obtain key dv where p: "p = (key, dv)" by (cases p)
  have fresh: "key \<notin> fst ` set pre"
    using Cons.prems(1) by (auto simp: p)
  have step: "\<And>x. distinct (map fst ((pre @ [(key, x)]) @ ps))"
    using Cons.prems(1) by (auto simp: p)
  have rest: "\<forall>q \<in> set ps. cloneable (snd q)"
    using Cons.prems(2) by simp
  have IH: "\<And>x. defaultFill_keys ps u (JObject k (pre @ (key, x) # ps)) =
     (concat (map (field_warnings u) ps), Inr (JObject k (pre @ (key, x) # map (field u) ps)))"
    using Cons.IH [OF step rest] by simp
  have upd: "\<And>x. AList.update key x (pre @ (key, dv) # ps) = pre @ (key, x) # ps"
    using fresh by (rule update_middle)
  from Cons.prems(2) have "cloneable dv" by (simp add: p)
  from defaultFill_no_throw [OF this]
  obtain ws v where nested: "defaultFill dv (get u key) = (ws, Inr v)" by blast
  let ?uv = "get u key"
  consider (skip) "\<not> (has_key key u \<and> ?uv \<noteq> JUndefined)"
    | (mismatch) "has_key key u" "?uv \<noteq> JUndefined" "typeof dv \<noteq> typeof ?uv"
    | (nested) "has_key key u" "?uv \<noteq> JUndefined" "typeof dv = typeof ?uv" "isObject dv"
    | (scalar) "has_key key u" "?uv \<noteq> JUndefined" "typeof dv = typeof ?uv" "\<not> isObject dv"
    by blast
  then show ?case
  proof cases
    case skip
    then have "field u (key, dv) = (key, dv)" "field_warnings u (key, dv) = []"
      by (auto simp: field_def field_warnings_def Let_def)
    with skip show ?thesis
      by (auto simp: p IH)
  next
    case mismatch
    then have "field u (key, dv) = (key, dv)" "field_warnings u (key, dv) = [BadKeyValue ?uv]"
      by (auto simp: field_def field_warnings_def Let_def)
    with mismatch show ?thesis
      by (simp add: p IH)
  next
    case nested
    then have "field u (key, dv) = (key, v)" "field_warnings u (key, dv) = ws"
      by (auto simp: field_def field_warnings_def Let_def \<open>defaultFill dv (get u key) = (ws, Inr v)\<close>)
    with nested show ?thesis
      by (simp add: p IH upd \<open>defaultFill dv (get u key) = (ws, Inr v)\<close>)
  next
    case scalar
    then have "field u (key, dv) = (key, ?uv)" "field_warnings u (key, dv) = []"
      by (auto simp: field_def field_warnings_def Let_def)
    with scalar show ?thesis
      by (simp add: p IH upd)
  qed
qed

lemma defaultFill_eq:
  assumes "wf_jsval d" and "cloneable d"
  shows "defaultFill d u =
     (if isObject d \<and> isObject u
      then (concat (map (field_warnings u) (properties d)),
            Inr (JObject PlainObject (map (field u) (properties d))))
      else ([], Inr d))"
proof (cases "isObject d \<and> isObject u")
  case False
  with assms(2) show ?thesis by (auto simp: cloneable_def defaultFill.simps)
next
  case True
  then obtain k ps where d: "d = JObject k ps"
    using isObject_JObject by blast
  from assms(1) have dist: "distinct (map fst ([] @ ps))" by (simp add: d)
  from assms(2) have cl: "\<forall>p \<in> set ps. cloneable (snd p)"
    using cloneable_properties [of d] by (simp add: d)
  from assms(2) have "structuredClone d = Inr d" by (simp add: cloneable_def)
  with True defaultFill_keys_eq [OF dist cl, of u k] show ?thesis
    by (cases k) (auto simp: d defaultFill.simps isObject_def isArray_def)
qed

lemma jsval_object_induct [case_names JObject other]:
  assumes "\<And>k ps. (\<And>key v. (key, v) \<in> set ps \<Longrightarrow> P v) \<Longrightarrow> P (JObject k ps)"
    and "\<And>v. properties v = [] \<Longrightarrow> \<not> isObject v \<Longrightarrow> P v"
  shows "P v"
proof (induction v)
  case (JObject k ps)
  show ?case
  proof (rule assms(1))
    fix key v assume "(key, v) \<in> set ps"
    then show "P v" by (rule JObject.IH) simp
  qed
qed (simp_all add: assms(2) isObject_def)

lemma get_mapped:
  assumes "distinct (map fst ps)" and "(key, dv) \<in> set ps" and "\<And>p. fst (g p) = fst p"
  shows "get (JObject k (map g ps)) key = snd (g (key, dv))"
    and "has_key key (JObject k (map g ps))"
proof -
  have "distinct (map fst (map g ps))"
    using assms(1,3) by (simp add: comp_def)
  moreover have "(key, snd (g (key, dv))) \<in> set (map g ps)"
    using assms(2) assms(3) [of "(key, dv)"] by (metis fst_conv image_eqI list.set_map prod.collapse)
  ultimately have "map_of (map g ps) key = Some (snd (g (key, dv)))"
    by (rule map_of_is_SomeI)
  then show "get (JObject k (map g ps)) key = snd (g (key, dv))"
    by (simp add: get_def)
  have "g (key, dv) \<in> set (map g ps)"
    using assms(2) by simp
  then have "fst (g (key, dv)) \<in> fst ` set (map g ps)"
    by (rule imageI)
  then show "has_key key (JObject k (map g ps))"
    using assms(3) [of "(key, dv)"] by (simp add: has_key_def)
qed

lemma defaultFill_isObject:
  assumes "wf_jsval d" and "cloneable d" and "defaultFill d u = (ws, Inr r)"
  shows "isObject r = isObject d" and "typeof r = typeof d"
  using assms(3) isObject_JObject [of d]
  by (auto simp: defaultFill_eq [OF assms(1,2)] isObject_def isArray_def split: if_splits)

lemma stable_self:
  assumes "wf_jsval d" and "cloneable d" and "refill_stable d"
  shows "defaultFill d d = ([], Inr d)"
proof -
  have "defaultFill d JNull = ([], Inr d)"
    by (simp add: defaultFill_eq [OF assms(1,2)] isObject_def)
  with assms(3) show ?thesis
    unfolding refill_stable_def by blast
qed

lemma field_stable:
  assumes wf: "wf_jsval dv" and cl: "cloneable dv" and st: "refill_stable dv"
    and has: "has_key key r" and x: "get r key = x"
    and cases: "x = dv \<or> x = snd (field u (key, dv))"
  shows "field r (key, dv) = (key, x) \<and> field_warnings r (key, dv) = []"
proof -
  have self: "defaultFill dv dv = ([], Inr dv)"
    by (rule stable_self [OF wf cl st])
  have same: ?thesis if "x = dv"
    using has x that self
    by (auto simp: field_def field_warnings_def Let_def)
  from cases show ?thesis
  proof
    assume "x = dv" then show ?thesis by (rule same)
  next
    assume xu: "x = snd (field u (key, dv))"
    let ?uv = "get u key"
    consider (kept) "field u (key, dv) = (key, dv)"
      | (nested) "has_key key u" "?uv \<noteq> JUndefined" "typeof dv = typeof ?uv" "isObject dv"
      | (scalar) "has_key key u" "?uv \<noteq> JUndefined" "typeof dv = typeof ?uv" "\<not> isObject dv"
      by (cases "has_key key u \<and> ?uv \<noteq> JUndefined \<and> typeof dv = typeof ?uv"; cases "isObject dv")
         (auto simp: field_def Let_def)
    then show ?thesis
    proof cases
      case kept
      with xu have "x = dv" by simp
      then show ?thesis by (rule same)
    next
      case nested
      from defaultFill_no_throw [OF cl]
      obtain ws v where v: "defaultFill dv ?uv = (ws, Inr v)" by blast
      with nested xu have xv: "x = v"
        by (simp add: field_def Let_def)
      from st v have again: "defaultFill dv v = ([], Inr v)"
        unfolding refill_stable_def by blast
      from defaultFill_isObject [OF wf cl v] nested(4)
      have "isObject v" "typeof v = typeof dv" by simp_all
      then have "v \<noteq> JUndefined" by (auto simp: isObject_def)
      with has x xv again \<open>typeof v = typeof dv\<close> nested(4) show ?thesis
        by (simp add: field_def field_warnings_def Let_def)
    next
      case scalar
      with xu have "x = ?uv" by (simp add: field_def Let_def)
      with has x scalar show ?thesis
        by (simp add: field_def field_warnings_def Let_def)
    qed
  qed
qed

lemma defaultFill_stable:
  "wf_jsval d \<Longrightarrow> cloneable d \<Longrightarrow> refill_stable d"
proof (induction d rule: jsval_object_induct)
  case (other v)
  then show ?case
    by (simp add: refill_stable_def defaultFill_eq)
next
  case (JObject k ps)
  let ?d = "JObject k ps"
  have wf: "wf_jsval ?d" and cl: "cloneable ?d" by fact+
  from wf have dist: "distinct (map fst ps)" by simp
  have sub: "wf_jsval dv \<and> cloneable dv \<and> refill_stable dv" if "(key, dv) \<in> set ps" for key dv
  proof -
    from that wf have "wf_jsval dv" by auto
    moreover from that cloneable_properties [OF cl, of "(key, dv)"] have "cloneable dv" by simp
    ultimately show ?thesis using JObject.IH [OF that] by simp
  qed
  have fixed: "defaultFill ?d (JObject PlainObject (map g ps)) = ([], Inr (JObject PlainObject (map g ps)))"
    if obj: "isObject ?d" and fst_g: "\<And>p. fst (g p) = fst p"
      and g: "\<And>p. p \<in> set ps \<Longrightarrow> snd (g p) = snd p \<or> snd (g p) = snd (field u p)" for g u
  proof -
    let ?r = "JObject PlainObject (map g ps)"
    have each: "field ?r p = g p \<and> field_warnings ?r p = []" if p: "p \<in> set ps" for p
    proof -
      obtain key dv where kd: "p = (key, dv)" by (cases p)
      from p kd have mem: "(key, dv) \<in> set ps" by simp
      from sub [OF mem] have a: "wf_jsval dv" "cloneable dv" "refill_stable dv" by simp_all
      from get_mapped [OF dist mem fst_g, of PlainObject]
      have b: "has_key key ?r" "get ?r key = snd (g (key, dv))" by simp_all
      from g [OF p] have c: "snd (g (key, dv)) = dv \<or> snd (g (key, dv)) = snd (field u (key, dv))"
        by (simp add: kd)
      from field_stable [OF a b c] fst_g [of "(key, dv)"] show ?thesis
        by (simp add: kd prod_eq_iff)
    qed
    have "map (field ?r) ps = map g ps"
      using each by simp
    moreover have "concat (map (field_warnings ?r) ps) = []"
      using each by simp
    moreover have "isObject ?r"
      by (simp add: isObject_def isArray_def)
    ultimately show ?thesis
      using obj by (simp add: defaultFill_eq [OF wf cl])
  qed
  show ?case
    unfolding refill_stable_def
  proof (intro allI impI)
    fix u ws r
    assume run: "defaultFill ?d u = (ws, Inr r)"
    show "defaultFill ?d r = ([], Inr r)"
    proof (cases "isObject ?d")
      case False
      with run have r: "r = ?d"
        by (simp add: defaultFill_eq [OF wf cl])
      from False show ?thesis
        unfolding r by (simp add: defaultFill_eq [OF wf cl])
    next
      case obj: True
      with cl have k: "k = PlainObject"
        by (cases k) (auto simp: isObject_def isArray_def cloneable_def)
      show ?thesis
      proof (cases "isObject u")
        case True
        with obj run have r: "r = JObject PlainObject (map (field u) ps)"
          by (simp add: defaultFill_eq [OF wf cl])
        show ?thesis
          unfolding r by (rule fixed [OF obj, of "field u" u]) simp_all
      next
        case False
        with run have "r = ?d"
          by (simp add: defaultFill_eq [OF wf cl])
        then have r: "r = JObject PlainObject (map (\<lambda>p. p) ps)"
          by (simp add: k)
        show ?thesis
          unfolding r by (rule fixed [OF obj, of "\<lambda>p. p" u]) simp_all
      qed
    qed
  qed
qed

lemma conforms_refl: "conforms d d"
proof (induction d rule: jsval_object_induct)
  case (JObject k ps)
  have "list_all2 (\<lambda>p q. fst q = fst p \<and> conforms (snd p) (snd q)) ps ps"
    by (rule list_all2_same [THEN iffD2]) (use JObject.IH in \<open>auto\<close>)
  then show ?case by simp
next
  case (other v)
  then show ?case by (cases v) simp_all
qed

lemma conforms_scalar:
  "\<not> isObject d \<Longrightarrow> typeof d = typeof x \<Longrightarrow> conforms d x"
  by (cases d) simp_all

lemma defaultFill_conforms:
  "wf_jsval d \<Longrightarrow> cloneable d \<Longrightarrow> defaultFill d u = (ws, Inr r) \<Longrightarrow> conforms d r"
proof (induction d arbitrary: u ws r rule: jsval_object_induct)
  case (other v)
  then show ?case
    by (simp add: defaultFill_eq conforms_refl)
next
  case (JObject k ps)
  let ?d = "JObject k ps"
  have wf: "wf_jsval ?d" and cl: "cloneable ?d" and run: "defaultFill ?d u = (ws, Inr r)"
    by fact+
  show ?case
  proof (cases "isObject ?d \<and> isObject u")
    case False
    with run have "r = ?d" by (simp add: defaultFill_eq [OF wf cl])
    then show ?thesis by (simp only: conforms_refl)
  next
    case True
    with run have r: "r = JObject PlainObject (map (field u) ps)"
      by (simp add: defaultFill_eq [OF wf cl])
    have each: "conforms (snd p) (snd (field u p))" if p: "p \<in> set ps" for p
    proof -
      obtain key dv where kd: "p = (key, dv)" by (cases p)
      from p kd have mem: "(key, dv) \<in> set ps" by simp
      from mem wf have wfv: "wf_jsval dv" by auto
      from cloneable_properties [OF cl, of "(key, dv)"] mem have clv: "cloneable dv" by simp
      let ?uv = "get u key"
      consider (kept) "field u (key, dv) = (key, dv)"
        | (nested) "has_key key u" "?uv \<noteq> JUndefined" "typeof dv = typeof ?uv" "isObject dv"
        | (scalar) "has_key key u" "?uv \<noteq> JUndefined" "typeof dv = typeof ?uv" "\<not> isObject dv"
        by (cases "has_key key u \<and> ?uv \<noteq> JUndefined \<and> typeof dv = typeof ?uv"; cases "isObject dv")
           (auto simp: field_def Let_def)
      then show ?thesis
      proof cases
        case kept
        then show ?thesis by (simp add: kd conforms_refl)
      next
        case nested
        from defaultFill_no_throw [OF clv]
        obtain ws' v where v: "defaultFill dv ?uv = (ws', Inr v)" by blast
        from JObject.IH [OF mem wfv clv v] nested v show ?thesis
          by (simp add: kd field_def Let_def)
      next
        case scalar
        then have "field u (key, dv) = (key, ?uv)"
          by (simp add: field_def Let_def)
        with conforms_scalar [OF scalar(4,3)] show ?thesis
          by (simp add: kd)
      qed
    qed
    have "list_all2 (\<lambda>p q. fst q = fst p \<and> conforms (snd p) (snd q)) ps (map (field u) ps)"
      unfolding list_all2_map2 by (rule list_all2_same [THEN iffD2]) (use each in \<open>auto\<close>)
    then show ?thesis
      by (simp add: r isObject_def isArray_def)
  qed
qed

lemma typeof_scalar_shape:
  "typeof r = ''boolean'' \<or> typeof r = ''number'' \<or> typeof r = ''string'' \<Longrightarrow>
   shape_of r = Leaf (typeof r) \<and> config_tree r"
  by (cases r) auto

lemma list_all2_map_eq:
  "list_all2 R ps qs \<Longrightarrow> (\<And>p q. p \<in> set ps \<Longrightarrow> R p q \<Longrightarrow> f q = g p) \<Longrightarrow> map f qs = map g ps"
  by (induction rule: list_all2_induct) auto

lemma config_tree_shape:
  "config_tree d \<Longrightarrow> conforms d r \<Longrightarrow> shape_of r = shape_of d"
proof (induction d arbitrary: r rule: jsval_object_induct)
  case (other v)
  then show ?case
    using typeof_scalar_shape [of r]
    by (cases v) (auto simp: isObject_def isArray_def)
next
  case (JObject k ps)
  from JObject.prems have k: "k = PlainObject" and sub: "\<forall>p \<in> set ps. config_tree (snd p)"
    by simp_all
  then have obj: "isObject (JObject k ps)" by (simp add: isObject_def isArray_def)
  with JObject.prems(2) have robj: "isObject r"
    and all2: "list_all2 (\<lambda>p q. fst q = fst p \<and> conforms (snd p) (snd q)) ps (properties r)"
    by simp_all
  from robj obtain k' qs where r: "r = JObject k' qs"
    using isObject_JObject by blast
  from all2 have "list_all2 (\<lambda>p q. fst q = fst p \<and> conforms (snd p) (snd q)) ps qs"
    by (simp add: r)
  then have "map (\<lambda>q. (fst q, shape_of (snd q))) qs = map (\<lambda>p. (fst p, shape_of (snd p))) ps"
  proof (rule list_all2_map_eq)
    fix p q
    assume p: "p \<in> set ps" and pq: "fst q = fst p \<and> conforms (snd p) (snd q)"
    obtain key dv where kd: "p = (key, dv)" by (cases p)
    from p sub kd have c: "config_tree dv" by auto
    from pq kd have f: "conforms dv (snd q)" by simp
    from p kd have m: "(key, dv) \<in> set ps" by simp
    have "shape_of (snd q) = shape_of dv"
      by (rule JObject.IH [OF m c f])
    with pq show "(fst q, shape_of (snd q)) = (fst p, shape_of (snd p))"
      by (simp add: kd)
  qed
  with obj robj show ?case
    by (simp add: r)
qed

lemma config_tree_wf_cloneable:
  "config_tree d \<Longrightarrow> wf_jsval d \<and> cloneable d"
proof (induction d rule: jsval_object_induct)
  case (other v)
  then show ?case by (cases v) (simp_all add: cloneable_def)
next
  case (JObject k ps)
  from JObject.prems JObject.IH have sub: "\<forall>p \<in> set ps. wf_jsval (snd p) \<and> cloneable (snd p)"
    by auto
  then have "structuredClone_properties ps = Inr ps"
    by (induction ps) (auto simp: cloneable_def)
  with JObject.prems sub show ?case
    by (simp add: cloneable_def)
qed





section \<open>Theorems: defaultFill\<close>

text \<open>Facts about the clock's default tree and the user options of the examples.\<close>

lemma OPTIONS_wf: "wf_jsval OPTIONS"
  by (simp add: OPTIONS_def obj_def number_def)

lemma OPTIONS_cloneable: "cloneable OPTIONS"
  by (simp add: OPTIONS_def obj_def number_def cloneable_def)

lemma OPTIONS_config_tree: "config_tree OPTIONS"
  by (simp add: OPTIONS_def obj_def number_def)





text \<open>
  C4. Let the default be an object with each key once that \<open>structuredClone\<close>
  accepts. For every user input \<open>X\<close> the merge returns a result, and merging that
  result into the default again returns the same value and prints no warning.
\<close>

theorem merge_idempotent:
  "wf_jsval d \<Longrightarrow> cloneable d \<Longrightarrow>
   \<exists>ws r. defaultFill d u = (ws, Inr r) \<and> defaultFill d r = ([], Inr r)"
proof -
  assume wf: "wf_jsval d" and cl: "cloneable d"
  from defaultFill_no_throw [OF cl]
  obtain ws r where run: "defaultFill d u = (ws, Inr r)" by blast
  from defaultFill_stable [OF wf cl] run have "defaultFill d r = ([], Inr r)"
    unfolding refill_stable_def by blast
  with run show ?thesis by blast
qed

theorem merge_idempotent_witness:
  "wf_jsval OPTIONS \<and> cloneable OPTIONS \<and>
   (\<exists>ws r. defaultFill OPTIONS padding_as_string = (ws, Inr r) \<and>
            defaultFill OPTIONS r = ([], Inr r))"
  using merge_idempotent [OF OPTIONS_wf OPTIONS_cloneable, of padding_as_string]
    OPTIONS_wf OPTIONS_cloneable
  by blast

text \<open>
  C5. Let the default be an object with each key once that \<open>structuredClone\<close>
  accepts. For every user input the merge returns a result that conforms to the
  default: every key of the default is there, in the default's order and no other,
  with a value of the \<open>typeof\<close> of the default's, record by record. When the default
  is a configuration tree, the result has the structure of the default.
\<close>

theorem shape_complete:
  "wf_jsval d \<Longrightarrow> cloneable d \<Longrightarrow>
   \<exists>ws r. defaultFill d u = (ws, Inr r) \<and> conforms d r \<and>
           (config_tree d \<longrightarrow> shape_of r = shape_of d)"
proof -
  assume wf: "wf_jsval d" and cl: "cloneable d"
  from defaultFill_no_throw [OF cl]
  obtain ws r where run: "defaultFill d u = (ws, Inr r)" by blast
  from defaultFill_conforms [OF wf cl run] have "conforms d r" .
  with run config_tree_shape [of d r] show ?thesis by blast
qed

theorem shape_complete_witness:
  "wf_jsval OPTIONS \<and> cloneable OPTIONS \<and> config_tree OPTIONS \<and>
   (\<exists>ws r. defaultFill OPTIONS padding_as_string = (ws, Inr r) \<and> conforms OPTIONS r \<and>
            shape_of r = shape_of OPTIONS)"
  using shape_complete [OF OPTIONS_wf OPTIONS_cloneable, of padding_as_string]
    OPTIONS_wf OPTIONS_cloneable OPTIONS_config_tree
  by blast

text \<open>
  C1. There is no discrete mode in the code. An option \<open>showDiscreteTime\<close> is not a
  key of the default tree, so the merge drops it without a warning; and the effect
  has the continuous formulas only: at 03:30:30 the hour angle is 105 and the minute
  angle 183, where the claim has 90 and 180. With \<open>dynamic\<close> off the angles are 0.
\<close>

theorem discrete_mode_absent:
  "defaultFill OPTIONS (obj [(''interface'', obj [(''showDiscreteTime'', JBoolean True)])])
     = ([], Inr OPTIONS)
   \<and> rotations (effect True \<lparr>getHours = 3, getMinutes = 30, getSeconds = 30\<rparr> mounted)
     = \<lparr>hour = Finite 105, minute = Finite 183, second = Finite 180\<rparr>
   \<and> rotations (effect False \<lparr>getHours = 3, getMinutes = 30, getSeconds = 30\<rparr> mounted)
     = \<lparr>hour = Finite 0, minute = Finite 0, second = Finite 0\<rparr>"
proof (intro conjI)
  show "defaultFill OPTIONS (obj [(''interface'', obj [(''showDiscreteTime'', JBoolean True)])])
     = ([], Inr OPTIONS)"
    by (simp add: defaultFill.simps OPTIONS_def obj_def number_def
        isObject_def isArray_def has_key_def get_def)
  show "rotations (effect True \<lparr>getHours = 3, getMinutes = 30, getSeconds = 30\<rparr> mounted)
     = \<lparr>hour = Finite 105, minute = Finite 183, second = Finite 180\<rparr>"
    by (simp add: effect_def cleanup_def initialHourDeg_def initialMinuteDeg_def
        initialSecondDeg_def num_def exact_values)
  show "rotations (effect False \<lparr>getHours = 3, getMinutes = 30, getSeconds = 30\<rparr> mounted)
     = \<lparr>hour = Finite 0, minute = Finite 0, second = Finite 0\<rparr>"
    by (simp add: effect_def cleanup_def mounted_def)
qed

section \<open>Lemmas: the store\<close>

lemma frame_upto_refl [simp]: "frame_upto b h h"
  by (simp add: frame_upto_def)

lemma frame_upto_trans:
  "frame_upto b h1 h2 \<Longrightarrow> frame_upto b h2 h3 \<Longrightarrow> frame_upto b h1 h3"
  by (simp add: frame_upto_def)

lemma frame_upto_mono:
  "frame_upto b h h' \<Longrightarrow> c \<le> b \<Longrightarrow> frame_upto c h h'"
  by (simp add: frame_upto_def)


lemma frame_upto_store: "b \<le> a \<Longrightarrow> frame_upto b h (store h a c)"
  by (simp add: frame_upto_def store_def)



lemma memo_ok_mono: "memo_ok b h m \<Longrightarrow> next_free h \<le> next_free h' \<Longrightarrow> memo_ok b h' m"
  by (auto simp: memo_ok_def)


lemma lim_store [simp]: "next_free (store h a c) = next_free h"
  by (simp add: store_def)

lemma lim_alloc [simp]: "next_free (snd (alloc h c)) = Suc (next_free h)" "fst (alloc h c) = next_free h"
  by (simp_all add: alloc_def)





lemma next_free_assign [simp]: "next_free (assign_h h newObj key x) = next_free h"
  by (cases newObj) (auto simp: store_def split: hobject.splits)








lemma plain_ref:
  "plain_tree_n n h (HRef a) \<Longrightarrow>
   \<exists>k ps. n = Suc k \<and> a < next_free h \<and> cells h a = HObject PlainObject ps \<and>
          (\<forall>p \<in> set ps. plain_tree_n k h (snd p))"
  by (cases n) (auto split: hobject.splits)
















lemma plain_tree: "plain_tree_n n h v \<Longrightarrow> tree_n n h v"
proof (induction n arbitrary: v)
  case 0
  then show ?case by (cases v) simp_all
next
  case (Suc n)
  show ?case
  proof (cases v)
    case (HRef a)
    from plain_ref [OF Suc.prems [unfolded HRef]]
    obtain ps where a: "a < next_free h" and c: "cells h a = HObject PlainObject ps"
      and sub: "\<forall>p \<in> set ps. plain_tree_n n h (snd p)"
      by auto
    from sub Suc.IH have "\<forall>p \<in> set ps. tree_n n h (snd p)"
      by blast
    with a c show ?thesis
      by (simp add: HRef)
  qed simp_all
qed





text \<open>
  The bound is only a bound: a result reached with one bound is reached, the same,
  with every larger one.
\<close>

lemma structuredClone_h_fuel:
  "structuredClone_h n h m v = Some r \<Longrightarrow> structuredClone_h (Suc n) h m v = Some r"
  "structuredClone_slots n h m ps = Some r' \<Longrightarrow> structuredClone_slots (Suc n) h m ps = Some r'"
proof (induction n h m v and n h m ps arbitrary: r and r'
    rule: structuredClone_h_structuredClone_slots.induct)
  case (3 n h m a)
  show ?case
  proof (cases "map_of m a")
    case (Some b)
    with "3.prems" show ?thesis by simp
  next
    case None
    show ?thesis
    proof (cases "cells h a")
      case (HFunction f)
      with None "3.prems" show ?thesis by simp
    next
      case (HObject k ps)
      show ?thesis
      proof (cases "k = HostObject")
        case True
        with None HObject "3.prems" show ?thesis by simp
      next
        case False
        obtain b h1 where al: "alloc h (HObject k []) = (b, h1)"
          by (cases "alloc h (HObject k [])")
        from "3.prems" None HObject False al
        obtain x where sl: "structuredClone_slots n h1 ((a, b) # m) ps = Some x"
          by (auto split: option.splits)
        from "3.IH" [OF None HObject False al [symmetric] sl]
        have sl': "structuredClone_slots (Suc n) h1 ((a, b) # m) ps = Some x" .
        from "3.prems" None HObject False al sl sl' show ?thesis
          by simp
      qed
    qed
  qed
next
  case (6 n h m key v ps)
  from "6.prems" obtain r1 h1 m1 where cl: "structuredClone_h n h m v = Some (r1, h1, m1)"
    by (auto split: option.splits)
  from "6.IH"(1) [OF cl] have cl': "structuredClone_h (Suc n) h m v = Some (r1, h1, m1)" .
  show ?case
  proof (cases r1)
    case (Inl e)
    with "6.prems" cl cl' show ?thesis by simp
  next
    case (Inr v')
    with "6.prems" cl obtain x where sl: "structuredClone_slots n h1 m1 ps = Some x"
      by (auto split: option.splits)
    from "6.IH"(2) [OF cl refl Inr refl sl]
    have sl': "structuredClone_slots (Suc n) h1 m1 ps = Some x" .
    from "6.prems" cl cl' Inr sl sl' show ?thesis
      by simp
  qed
qed simp_all

lemma defaultFill_h_fuel:
  "defaultFill_h n h d u = Some r \<Longrightarrow> defaultFill_h (Suc n) h d u = Some r"
  "defaultFill_h_keys n h keys d u newObj = Some r \<Longrightarrow>
   defaultFill_h_keys (Suc n) h keys d u newObj = Some r"
proof (induction n h d u and n h keys d u newObj arbitrary: r and r
    rule: defaultFill_h_defaultFill_h_keys.induct)
  case (1 h defaultObj userObj)
  then show ?case by simp
next
  case (2 n h defaultObj userObj)
  from "2.prems" obtain r1 h1 m1 where
    cl: "structuredClone_h (Suc n) h [] defaultObj = Some (r1, h1, m1)"
    by (cases "structuredClone_h (Suc n) h [] defaultObj") auto
  from structuredClone_h_fuel(1) [OF cl]
  have cl': "structuredClone_h (Suc (Suc n)) h [] defaultObj = Some (r1, h1, m1)" .
  show ?case
  proof (cases r1)
    case (Inl e)
    with "2.prems" cl cl' show ?thesis by simp
  next
    case (Inr newObject)
    show ?thesis
    proof (cases "isObject_h h1 defaultObj \<and> isObject_h h1 userObj")
      case False
      with "2.prems" cl cl' Inr show ?thesis by auto
    next
      case True
      with "2.prems" cl Inr
      have loop: "defaultFill_h_keys n h1 (map fst (properties_h h1 defaultObj))
          defaultObj userObj newObject = Some r"
        by simp
      from "2.IH" [OF cl refl Inr refl True loop]
      have "defaultFill_h_keys (Suc n) h1 (map fst (properties_h h1 defaultObj))
          defaultObj userObj newObject = Some r" .
      with cl' Inr True show ?thesis
        by (simp del: structuredClone_h.simps)
    qed
  qed
next
  case (3 n h defaultObj userObj newObject)
  then show ?case by simp
next
  case (4 n h key keys defaultObj userObj newObject)
  let ?dv = "get_h h defaultObj key" and ?uv = "get_h h userObj key"
  consider (skip) "\<not> (has_key_h h key userObj \<and> ?uv \<noteq> HUndefined)"
    | (mismatch) "has_key_h h key userObj \<and> ?uv \<noteq> HUndefined" "typeof_h h ?dv \<noteq> typeof_h h ?uv"
    | (nested) "has_key_h h key userObj \<and> ?uv \<noteq> HUndefined" "\<not> typeof_h h ?dv \<noteq> typeof_h h ?uv"
        "isObject_h h ?dv"
    | (scalar) "has_key_h h key userObj \<and> ?uv \<noteq> HUndefined" "\<not> typeof_h h ?dv \<noteq> typeof_h h ?uv"
        "\<not> isObject_h h ?dv"
    by blast
  then show ?case
  proof cases
    case skip
    then have eq: "\<And>n. defaultFill_h_keys n h (key # keys) defaultObj userObj newObject
        = defaultFill_h_keys n h keys defaultObj userObj newObject"
      by (cases "has_key_h h key userObj") simp_all
    from "4.prems" have "defaultFill_h_keys n h keys defaultObj userObj newObject = Some r"
      by (simp only: eq)
    from "4.IH"(5) [OF skip this] show ?thesis
      by (simp only: eq)
  next
    case mismatch
    then have eq: "\<And>n. defaultFill_h_keys n h (key # keys) defaultObj userObj newObject
        = (case defaultFill_h_keys n h keys defaultObj userObj newObject of
             None \<Rightarrow> None
           | Some (ws, r, h') \<Rightarrow> Some (BadKeyValue_h ?uv # ws, r, h'))"
      by (simp add: Let_def)
    from "4.prems" obtain x where rest: "defaultFill_h_keys n h keys defaultObj userObj newObject = Some x"
      unfolding eq by (auto split: option.splits)
    from "4.IH"(1) [OF mismatch(1) refl refl mismatch(2) rest]
    have "defaultFill_h_keys (Suc n) h keys defaultObj userObj newObject = Some x" .
    with "4.prems" rest show ?thesis
      unfolding eq by simp
  next
    case nested
    then have eq: "\<And>n. defaultFill_h_keys n h (key # keys) defaultObj userObj newObject
        = (case defaultFill_h n h ?dv ?uv of
             None \<Rightarrow> None
           | Some (ws, Inl e, h1) \<Rightarrow> Some (ws, Inl e, h1)
           | Some (ws, Inr v, h1) \<Rightarrow>
               (case defaultFill_h_keys n (assign_h h1 newObject key v) keys
                       defaultObj userObj newObject of
                  None \<Rightarrow> None
                | Some (ws', r, h2) \<Rightarrow> Some (ws @ ws', r, h2)))"
      by (simp add: Let_def)
    from "4.prems" obtain ws1 r1 h1 where inner: "defaultFill_h n h ?dv ?uv = Some (ws1, r1, h1)"
      unfolding eq by (cases "defaultFill_h n h ?dv ?uv") auto
    from "4.IH"(2) [OF nested(1) refl refl nested(2,3) inner]
    have inner': "defaultFill_h (Suc n) h ?dv ?uv = Some (ws1, r1, h1)" .
    show ?thesis
    proof (cases r1)
      case (Inl e)
      with "4.prems" inner have "r = (ws1, Inl e, h1)"
        unfolding eq by simp
      with inner' Inl show ?thesis
        unfolding eq by (simp del: defaultFill_h.simps)
    next
      case (Inr v)
      with "4.prems" inner obtain ws2 r2 h2 where
        rest: "defaultFill_h_keys n (assign_h h1 newObject key v) keys defaultObj userObj newObject
                 = Some (ws2, r2, h2)"
        unfolding eq
        by (cases "defaultFill_h_keys n (assign_h h1 newObject key v) keys defaultObj userObj newObject")
           auto
      from "4.IH"(3) [OF nested(1) refl refl nested(2,3) inner refl refl Inr rest]
      have rest': "defaultFill_h_keys (Suc n) (assign_h h1 newObject key v) keys defaultObj userObj
                 newObject = Some (ws2, r2, h2)" .
      from "4.prems" inner Inr rest have "r = (ws1 @ ws2, r2, h2)"
        unfolding eq by simp
      with inner' Inr rest' show ?thesis
        unfolding eq by (simp del: defaultFill_h.simps)
    qed
  next
    case scalar
    then have eq: "\<And>n. defaultFill_h_keys n h (key # keys) defaultObj userObj newObject
        = defaultFill_h_keys n (assign_h h newObject key ?uv) keys defaultObj userObj newObject"
      by (simp add: Let_def)
    from "4.prems" have
      "defaultFill_h_keys n (assign_h h newObject key ?uv) keys defaultObj userObj newObject = Some r"
      by (simp only: eq)
    from "4.IH"(4) [OF scalar(1) refl refl scalar(2,3) this] show ?thesis
      by (simp only: eq)
  qed
qed

lemma defaultFill_h_more_fuel:
  "defaultFill_h n h d u = Some r \<Longrightarrow> n \<le> n' \<Longrightarrow> defaultFill_h n' h d u = Some r"
proof (induction n' )
  case 0
  then show ?case by simp
next
  case (Suc n')
  show ?case
  proof (cases "n = Suc n'")
    case True
    with Suc.prems show ?thesis by simp
  next
    case False
    with Suc.prems have "n \<le> n'" by simp
    from Suc.IH [OF Suc.prems(1) this] show ?thesis
      by (rule defaultFill_h_fuel(1))
  qed
qed

section \<open>Theorems: what a merge leaves and what it returns\<close>



end
